theory Spec2Isabelle
  imports Complex_Main
begin

section \<open>Text: Python strings over the code points U+0000 to U+00FF\<close>

text \<open>
  A Python \<open>str\<close> is a sequence of code points. The model keeps the code points
  U+0000 to U+00FF, one \<open>char\<close> each, which holds every literal of
  \<open>birth_cert_intl.py\<close> (\<open>CHR 0xEB\<close> is e with diaeresis, \<open>CHR 0xCB\<close> its capital,
  \<open>CHR 0xC7\<close> the capital c with cedilla). The tables below are those of CPython 3 on that
  range: \<open>str.isspace\<close> (also \<open>\s\<close> and what \<open>str.strip\<close> removes), \<open>str.lower\<close>,
  \<open>str.upper\<close>, \<open>\d\<close>, \<open>\w\<close> and the cased characters \<open>str.title\<close> looks at.
\<close>

definition ascii_upper :: string where
  "ascii_upper = ''ABCDEFGHIJKLMNOPQRSTUVWXYZ''"

definition ascii_lower :: string where
  "ascii_lower = ''abcdefghijklmnopqrstuvwxyz''"

definition digits :: string where
  "digits = ''0123456789''"

definition latin1_upper :: string where
  "latin1_upper =
    [CHR 0xC0, CHR 0xC1, CHR 0xC2, CHR 0xC3, CHR 0xC4, CHR 0xC5, CHR 0xC6, CHR 0xC7,
     CHR 0xC8, CHR 0xC9, CHR 0xCA, CHR 0xCB, CHR 0xCC, CHR 0xCD, CHR 0xCE, CHR 0xCF,
     CHR 0xD0, CHR 0xD1, CHR 0xD2, CHR 0xD3, CHR 0xD4, CHR 0xD5, CHR 0xD6,
     CHR 0xD8, CHR 0xD9, CHR 0xDA, CHR 0xDB, CHR 0xDC, CHR 0xDD, CHR 0xDE]"

definition latin1_lower :: string where
  "latin1_lower =
    [CHR 0xE0, CHR 0xE1, CHR 0xE2, CHR 0xE3, CHR 0xE4, CHR 0xE5, CHR 0xE6, CHR 0xE7,
     CHR 0xE8, CHR 0xE9, CHR 0xEA, CHR 0xEB, CHR 0xEC, CHR 0xED, CHR 0xEE, CHR 0xEF,
     CHR 0xF0, CHR 0xF1, CHR 0xF2, CHR 0xF3, CHR 0xF4, CHR 0xF5, CHR 0xF6,
     CHR 0xF8, CHR 0xF9, CHR 0xFA, CHR 0xFB, CHR 0xFC, CHR 0xFD, CHR 0xFE]"

definition isspace :: "char \<Rightarrow> bool" where
  "isspace c \<longleftrightarrow> c \<in> set [CHR 0x09, CHR 0x0A, CHR 0x0B, CHR 0x0C, CHR 0x0D,
     CHR 0x1C, CHR 0x1D, CHR 0x1E, CHR 0x1F, CHR 0x20, CHR 0x85, CHR 0xA0]"

definition isdigit :: "char \<Rightarrow> bool" where
  \<comment> \<open>the regular expression class \<open>\d\<close>\<close>
  "isdigit c \<longleftrightarrow> c \<in> set digits"

definition is_word :: "char \<Rightarrow> bool" where
  \<comment> \<open>the regular expression class \<open>\w\<close>\<close>
  "is_word c \<longleftrightarrow> c \<in> set (digits @ ascii_upper @ ''_'' @ ascii_lower @
     [CHR 0xAA, CHR 0xB2, CHR 0xB3, CHR 0xB5, CHR 0xB9, CHR 0xBA, CHR 0xBC, CHR 0xBD, CHR 0xBE] @
     latin1_upper @ [CHR 0xDF] @ latin1_lower @ [CHR 0xFF])"

definition cased :: "char \<Rightarrow> bool" where
  "cased c \<longleftrightarrow> c \<in> set (ascii_upper @ ascii_lower @ [CHR 0xAA, CHR 0xB5, CHR 0xBA] @
     latin1_upper @ [CHR 0xDF] @ latin1_lower @ [CHR 0xFF])"

definition lower_char :: "char \<Rightarrow> char" where
  "lower_char c =
     (case map_of (zip (ascii_upper @ latin1_upper) (ascii_lower @ latin1_lower)) c of
        None \<Rightarrow> c | Some d \<Rightarrow> d)"

text \<open>
  \<open>str.upper\<close> sends U+00DF to the two letters SS. It sends U+00B5 and U+00FF to U+039C
  and U+0178, which this alphabet does not hold; the model leaves those two where they are.
\<close>

definition upper_char :: "char \<Rightarrow> string" where
  "upper_char c =
     (if c = CHR 0xDF then ''SS''
      else case map_of (zip (ascii_lower @ latin1_lower) (ascii_upper @ latin1_upper)) c of
        None \<Rightarrow> [c] | Some d \<Rightarrow> [d])"

definition title_char :: "char \<Rightarrow> string" where
  "title_char c = (if c = CHR 0xDF then ''Ss'' else upper_char c)"

definition lower :: "string \<Rightarrow> string" where
  "lower s = map lower_char s"

definition upper :: "string \<Rightarrow> string" where
  "upper s = concat (map upper_char s)"

definition strip :: "string \<Rightarrow> string" where
  "strip s = rev (dropWhile isspace (rev (dropWhile isspace s)))"

fun title_from :: "bool \<Rightarrow> string \<Rightarrow> string" where
  "title_from previous_is_cased [] = []"
| "title_from previous_is_cased (c # cs) =
     (if previous_is_cased then [lower_char c] else title_char c) @ title_from (cased c) cs"

definition title :: "string \<Rightarrow> string" where
  "title s = title_from False s"

definition startswith :: "string \<Rightarrow> string \<Rightarrow> bool" where
  \<comment> \<open>\<open>s.startswith(p)\<close>\<close>
  "startswith p s \<longleftrightarrow> take (length p) s = p"

fun contains :: "string \<Rightarrow> string \<Rightarrow> bool" where
  \<comment> \<open>\<open>sub in s\<close>\<close>
  "contains sub [] = (sub = [])"
| "contains sub (c # cs) = (startswith sub (c # cs) \<or> contains sub cs)"

fun replace :: "string \<Rightarrow> string \<Rightarrow> string \<Rightarrow> string" where
  \<comment> \<open>\<open>s.replace(old, new)\<close> for a non-empty \<open>old\<close>: leftmost occurrences, not overlapping\<close>
  "replace old new [] = []"
| "replace old new (c # cs) =
     (if old \<noteq> [] \<and> startswith old (c # cs)
      then new @ replace old new (drop (length old - 1) cs)
      else c # replace old new cs)"

fun join :: "string \<Rightarrow> string list \<Rightarrow> string" where
  \<comment> \<open>\<open>sep.join(xs)\<close>\<close>
  "join sep [] = []"
| "join sep [x] = x"
| "join sep (x # y # ys) = x @ sep @ join sep (y # ys)"

fun split_after :: "string \<Rightarrow> string \<Rightarrow> string option" where
  \<comment> \<open>\<open>s.split(sep, 1)[1]\<close>: what follows the first \<open>sep\<close>; \<open>None\<close> where the index is out of range\<close>
  "split_after sep [] = (if sep = [] then Some [] else None)"
| "split_after sep (c # cs) =
     (if startswith sep (c # cs) then Some (drop (length sep) (c # cs)) else split_after sep cs)"

section \<open>The OCR block graph\<close>

datatype py_error = KeyError | IndexError | ValueError

record bounding_box =
  Top :: rat
  Height :: rat
  Left :: rat
  Width :: rat

record relationship =
  Type :: string
  Ids :: "string list"

text \<open>
  A block is a dictionary whose key \<open>BlockType\<close> is always there; the other keys the
  program reads may be absent, and reading an absent one with \<open>b[key]\<close> raises
  \<open>KeyError\<close>. \<open>Geometry\<close> stands for the two lookups \<open>w["Geometry"]["BoundingBox"]\<close>.
  Coordinates are exact rationals.
\<close>

record block =
  Id :: string
  BlockType :: string
  Text :: "string option"
  Geometry :: "bounding_box option"
  RowIndex :: "int option"
  ColumnIndex :: "int option"
  Relationships :: "relationship list option"

type_synonym block_map = "string \<rightharpoonup> block"

definition required :: "'a option \<Rightarrow> py_error + 'a" where
  \<comment> \<open>\<open>d[key]\<close> on a key that may be absent\<close>
  "required v = (case v of None \<Rightarrow> Inl KeyError | Some x \<Rightarrow> Inr x)"

definition bmap_of :: "block list \<Rightarrow> block_map" where
  \<comment> \<open>\<open>{b["Id"]: b for b in blocks}\<close>: a later block replaces an earlier one of the same id\<close>
  "bmap_of blocks = map_of (rev (map (\<lambda>b. (Id b, b)) blocks))"

section \<open>Civil status from the vertical check boxes\<close>

definition fragments :: "(string \<times> nat) list" where
  "fragments = [(''beqar'', 0), (''martu'', 1), (''shkuror'', 2), (''vedov'', 3)]"

definition male :: "string list" where
  "male = [''Celibe'', ''Coniugato'', ''Divorziato'', ''Vedovo'']"

definition female :: "string list" where
  "female = [''Nubile'', ''Coniugata'', ''Divorziata'', ''Vedova'']"

definition not_recognised :: string where
  "not_recognised = ''[X] Stato non riconosciuto''"

definition centre_y :: "bounding_box \<Rightarrow> rat" where
  "centre_y bb = Top bb + Height bb / 2"

text \<open>
  The dictionary \<open>centres\<close> is kept as the list of its items in insertion order, which
  is the order \<open>centres.items()\<close> hands to \<open>sorted\<close>. The inner loop runs over the
  fragments for one WORD block, the outer loop over the blocks.
\<close>

fun record_fragments ::
  "block \<Rightarrow> string \<Rightarrow> (string \<times> nat) list \<Rightarrow> (nat \<times> rat) list \<Rightarrow> py_error + (nat \<times> rat) list"
where
  "record_fragments w text_low [] centres = Inr centres"
| "record_fragments w text_low ((frag, idx) # rest) centres =
     (if contains frag text_low \<and> idx \<notin> set (map fst centres)
      then (case required (Geometry w) of
              Inl e \<Rightarrow> Inl e
            | Inr bb \<Rightarrow> record_fragments w text_low rest (centres @ [(idx, centre_y bb)]))
      else record_fragments w text_low rest centres)"

fun locate_centres :: "block list \<Rightarrow> (nat \<times> rat) list \<Rightarrow> py_error + (nat \<times> rat) list" where
  "locate_centres [] centres = Inr centres"
| "locate_centres (w # ws) centres =
     (if BlockType w \<noteq> ''WORD'' then locate_centres ws centres
      else case required (Text w) of
             Inl e \<Rightarrow> Inl e
           | Inr t \<Rightarrow>
               (case record_fragments w (lower (strip t)) fragments centres of
                  Inl e \<Rightarrow> Inl e
                | Inr centres' \<Rightarrow> locate_centres ws centres'))"

fun find_x_block :: "block list \<Rightarrow> py_error + block option" where
  \<comment> \<open>\<open>next((w for w in blocks if ...), None)\<close>\<close>
  "find_x_block [] = Inr None"
| "find_x_block (w # ws) =
     (if BlockType w \<noteq> ''WORD'' then find_x_block ws
      else case required (Text w) of
             Inl e \<Rightarrow> Inl e
           | Inr t \<Rightarrow>
               if lower (strip t) \<in> set [''x'', ''x.'', ''x,''] then Inr (Some w)
               else find_x_block ws)"

fun min_from :: "('a \<Rightarrow> rat) \<Rightarrow> 'a \<Rightarrow> 'a list \<Rightarrow> 'a" where
  "min_from key best [] = best"
| "min_from key best (x # xs) =
     (if key x < key best then min_from key x xs else min_from key best xs)"

definition py_min :: "('a \<Rightarrow> rat) \<Rightarrow> 'a list \<Rightarrow> py_error + 'a" where
  \<comment> \<open>\<open>min(xs, key=key)\<close>: the first of the smallest; \<open>ValueError\<close> on an empty list\<close>
  "py_min key xs = (case xs of [] \<Rightarrow> Inl ValueError | x # rest \<Rightarrow> Inr (min_from key x rest))"

definition index :: "'a list \<Rightarrow> nat \<Rightarrow> py_error + 'a" where
  \<comment> \<open>\<open>xs[i]\<close> for an index that is not negative\<close>
  "index xs i = (if i < length xs then Inr (xs ! i) else Inl IndexError)"

definition gendered_form :: "string \<Rightarrow> nat \<Rightarrow> py_error + string" where
  "gendered_form gender best_idx =
     (let g = lower gender in
      if startswith ''f'' g then index female best_idx
      else if startswith ''m'' g then index male best_idx
      else case index male best_idx of
             Inl e \<Rightarrow> Inl e
           | Inr m \<Rightarrow> (case index female best_idx of
                         Inl e \<Rightarrow> Inl e
                       | Inr f \<Rightarrow> Inr (m @ '' / '' @ f)))"

definition get_stato_from_vertical_boxes :: "block list \<Rightarrow> block_map \<Rightarrow> string \<Rightarrow> py_error + string" where
  "get_stato_from_vertical_boxes blocks bmap gender =
     (case locate_centres blocks [] of
        Inl e \<Rightarrow> Inl e
      | Inr centres \<Rightarrow>
          if length centres < 4 then Inr not_recognised
          else let ordered = sort_key snd centres in
            (case find_x_block blocks of
               Inl e \<Rightarrow> Inl e
             | Inr None \<Rightarrow> Inr not_recognised
             | Inr (Some x_block) \<Rightarrow>
                 (case required (Geometry x_block) of
                    Inl e \<Rightarrow> Inl e
                  | Inr bbx \<Rightarrow>
                      let x_centre_y = centre_y bbx in
                      (case py_min (\<lambda>p. \<bar>snd p - x_centre_y\<bar>) ordered of
                         Inl e \<Rightarrow> Inl e
                       | Inr (best_idx, _) \<Rightarrow> gendered_form gender best_idx))))"

section \<open>The electronic seal\<close>

fun line_texts :: "block list \<Rightarrow> py_error + string list" where
  \<comment> \<open>\<open>[b["Text"] for b in blocks if b["BlockType"] == "LINE"]\<close>\<close>
  "line_texts [] = Inr []"
| "line_texts (b # bs) =
     (if BlockType b = ''LINE''
      then (case required (Text b) of
              Inl e \<Rightarrow> Inl e
            | Inr t \<Rightarrow> (case line_texts bs of Inl e \<Rightarrow> Inl e | Inr ts \<Rightarrow> Inr (t # ts)))
      else line_texts bs)"

definition seal_marker :: string where
  "seal_marker = ''vulosur elektronikisht''"

definition marker_matches :: "string list \<Rightarrow> nat list" where
  \<comment> \<open>\<open>[i for i, t in enumerate(lines) if "vulosur elektronikisht" in t.lower()]\<close>\<close>
  "marker_matches lines = filter (\<lambda>i. contains seal_marker (lower (lines ! i))) [0..<length lines]"

fun date_at :: "string \<Rightarrow> bool" where
  \<comment> \<open>\<open>\d{4}/\d{2}/\d{2}\<close> matched at the head of the string\<close>
  "date_at (y1 # y2 # y3 # y4 # s1 # m1 # m2 # s2 # d1 # d2 # rest) \<longleftrightarrow>
     isdigit y1 \<and> isdigit y2 \<and> isdigit y3 \<and> isdigit y4 \<and> s1 = CHR ''/'' \<and>
     isdigit m1 \<and> isdigit m2 \<and> s2 = CHR ''/'' \<and> isdigit d1 \<and> isdigit d2"
| "date_at _ \<longleftrightarrow> False"

fun date_search :: "string \<Rightarrow> bool" where
  \<comment> \<open>\<open>re.search(r"\d{4}/\d{2}/\d{2}", txt)\<close> finds a match\<close>
  "date_search [] \<longleftrightarrow> False"
| "date_search (c # cs) \<longleftrightarrow> date_at (c # cs) \<or> date_search cs"

definition is_hex :: "char \<Rightarrow> bool" where
  "is_hex c \<longleftrightarrow> c \<in> set (''ABCDEF'' @ ''abcdef'' @ digits)"

definition hex_fullmatch :: "string \<Rightarrow> bool" where
  \<comment> \<open>\<open>re.fullmatch(r"[A-Fa-f0-9]{30,40}", txt)\<close> finds a match\<close>
  "hex_fullmatch txt \<longleftrightarrow> 30 \<le> length txt \<and> length txt \<le> 40 \<and> list_all is_hex txt"

definition strip_date_label :: "string \<Rightarrow> string" where
  \<comment> \<open>\<open>re.sub(r"^(Date|Dat?)\s*:?\s*", "", txt, flags=re.I)\<close>, the \<open>?\<close> of \<open>Dat?\<close> being \<open>CHR 0xEB\<close>\<close>
  "strip_date_label txt =
     (if lower (take 4 txt) = ''date'' \<or> lower (take 4 txt) = ''dat'' @ [CHR 0xEB]
      then let after_label = dropWhile isspace (drop 4 txt);
               after_colon = (case after_label of
                                [] \<Rightarrow> []
                              | c # cs \<Rightarrow> if c = CHR '':'' then cs else c # cs)
           in dropWhile isspace after_colon
      else txt)"

fun seal_scan :: "string list \<Rightarrow> string \<Rightarrow> string \<Rightarrow> string \<times> string" where
  \<comment> \<open>the loop over \<open>lines[start:]\<close>, with its \<open>break\<close>\<close>
  "seal_scan [] date_line hash_line = (date_line, hash_line)"
| "seal_scan (raw # rest) date_line hash_line =
     (let txt = strip raw;
          is_date = (date_line = [] \<and> date_search txt);
          date_line' = (if is_date then ''In data '' @ strip (strip_date_label txt) else date_line);
          hash_line' = (if \<not> is_date \<and> hash_line = [] \<and> hex_fullmatch txt then txt else hash_line)
      in if date_line' \<noteq> [] \<and> hash_line' \<noteq> [] then (date_line', hash_line')
         else seal_scan rest date_line' hash_line')"

definition seal_text :: "string list \<Rightarrow> string" where
  \<comment> \<open>\<open>extract_seal_footer\<close> after the list \<open>lines\<close> is built\<close>
  "seal_text lines =
     (let matches = marker_matches lines in
      if length matches < 2 then []
      else let start = matches ! 1;
               (date_line, hash_line) = seal_scan (drop start lines) [] []
           in if \<not> (date_line \<noteq> [] \<and> hash_line \<noteq> []) then []
              else join [CHR 0x0A]
                     [''Timbro elettronico della Direzione'', ''Generale dello Stato Civile'',
                      date_line, hash_line])"

definition extract_seal_footer :: "block list \<Rightarrow> py_error + string" where
  "extract_seal_footer blocks =
     (case line_texts blocks of Inl e \<Rightarrow> Inl e | Inr lines \<Rightarrow> Inr (seal_text lines))"

section \<open>Place names\<close>

text \<open>
  Each rule of \<open>EXONYM_RULES\<close> is \<open>\b\<close>, a run of letters or two-letter classes, \<open>\b\<close>.
  A pattern is the list of its classes, each class the lower-case letters it accepts;
  under \<open>re.IGNORECASE\<close> a character is in the class when its lower-case form is.
\<close>

type_synonym pattern = "string list"

definition EXONYM_RULES :: "(pattern \<times> string) list" where
  "EXONYM_RULES =
     [([''t'', ''i'', ''r'', ''a'', ''n'', [CHR 0xEB, CHR ''e'']], ''Tirana''),
      ([''v'', ''l'', ''o'', ''r'', [CHR 0xEB, CHR ''e'']], ''Valona''),
      ([''d'', ''u'', ''r'', ''r'', [CHR 0xEB, CHR ''e''], ''s''], ''Durazzo''),
      ([''s'', ''h'', ''k'', ''o'', ''d'', [CHR 0xEB, CHR ''e''], ''r''], ''Scutari'')]"

fun classes_match :: "pattern \<Rightarrow> string \<Rightarrow> bool" where
  "classes_match [] s \<longleftrightarrow> True"
| "classes_match (cls # pat) [] \<longleftrightarrow> False"
| "classes_match (cls # pat) (c # cs) \<longleftrightarrow> lower_char c \<in> set cls \<and> classes_match pat cs"

definition word_at :: "string \<Rightarrow> bool" where
  \<comment> \<open>is there a \<open>\w\<close> character at the head of the string\<close>
  "word_at s = (case s of [] \<Rightarrow> False | c # _ \<Rightarrow> is_word c)"

definition rule_match :: "pattern \<Rightarrow> bool \<Rightarrow> string \<Rightarrow> bool" where
  \<comment> \<open>the rule matches at the head of \<open>s\<close>; \<open>before\<close> says whether a \<open>\w\<close> character precedes\<close>
  "rule_match pat before s \<longleftrightarrow>
     before \<noteq> word_at s \<and> classes_match pat s \<and>
     word_at (rev (take (length pat) s)) \<noteq> word_at (drop (length pat) s)"

fun re_sub_from :: "pattern \<Rightarrow> string \<Rightarrow> bool \<Rightarrow> string \<Rightarrow> string" where
  \<comment> \<open>\<open>re.sub\<close> for one rule: leftmost matches replaced, the scan going on behind each\<close>
  "re_sub_from pat repl before [] = []"
| "re_sub_from pat repl before (c # cs) =
     (if pat \<noteq> [] \<and> rule_match pat before (c # cs)
      then repl @ re_sub_from pat repl (word_at (rev (take (length pat) (c # cs))))
                    (drop (length pat - 1) cs)
      else c # re_sub_from pat repl (is_word c) cs)"

definition re_sub :: "pattern \<Rightarrow> string \<Rightarrow> string \<Rightarrow> string" where
  "re_sub pat repl s = re_sub_from pat repl False s"

definition map_exonyms :: "string \<Rightarrow> string" where
  "map_exonyms text =
     (if text = [] then text
      else foldl (\<lambda>out (pat, repl). re_sub pat repl out) text EXONYM_RULES)"

section \<open>The table fields\<close>

text \<open>
  \<open>rows\<close> is a dictionary of dictionaries, read only as \<open>rows.get(r, {}).get(c, "")\<close>
  and written only as \<open>rows.setdefault(r, {})[c] = txt\<close>: a map from the pair of
  indices to the cell text.
\<close>

type_synonym grid = "int \<times> int \<rightharpoonup> string"

definition cell_at :: "grid \<Rightarrow> int \<Rightarrow> int \<Rightarrow> string" where
  \<comment> \<open>\<open>rows.get(r, {}).get(c, "")\<close>\<close>
  "cell_at rows r c = (case rows (r, c) of None \<Rightarrow> [] | Some txt \<Rightarrow> txt)"

fun word_texts_of_ids :: "block_map \<Rightarrow> string list \<Rightarrow> py_error + string list" where
  \<comment> \<open>\<open>for wid in cr.get("Ids", []) for w in (bmap[wid],) if w["BlockType"] == "WORD"\<close>\<close>
  "word_texts_of_ids bmap [] = Inr []"
| "word_texts_of_ids bmap (wid # wids) =
     (case required (bmap wid) of
        Inl e \<Rightarrow> Inl e
      | Inr w \<Rightarrow>
          if BlockType w = ''WORD''
          then (case required (Text w) of
                  Inl e \<Rightarrow> Inl e
                | Inr t \<Rightarrow> (case word_texts_of_ids bmap wids of
                              Inl e \<Rightarrow> Inl e | Inr ts \<Rightarrow> Inr (t # ts)))
          else word_texts_of_ids bmap wids)"

fun word_texts :: "block_map \<Rightarrow> relationship list \<Rightarrow> py_error + string list" where
  \<comment> \<open>\<open>for cr in cell.get("Relationships", [])\<close>\<close>
  "word_texts bmap [] = Inr []"
| "word_texts bmap (cr # crs) =
     (case word_texts_of_ids bmap (Ids cr) of
        Inl e \<Rightarrow> Inl e
      | Inr ts \<Rightarrow> (case word_texts bmap crs of Inl e \<Rightarrow> Inl e | Inr ts' \<Rightarrow> Inr (ts @ ts')))"

definition relationships_of :: "block \<Rightarrow> relationship list" where
  \<comment> \<open>\<open>b.get("Relationships", [])\<close>\<close>
  "relationships_of b = (case Relationships b of None \<Rightarrow> [] | Some rels \<Rightarrow> rels)"

fun add_cells :: "block_map \<Rightarrow> string list \<Rightarrow> grid \<Rightarrow> py_error + grid" where
  \<comment> \<open>\<open>for cid in rel["Ids"]\<close>\<close>
  "add_cells bmap [] rows = Inr rows"
| "add_cells bmap (cid # cids) rows =
     (case required (bmap cid) of
        Inl e \<Rightarrow> Inl e
      | Inr cell \<Rightarrow>
          if BlockType cell \<noteq> ''CELL'' then add_cells bmap cids rows
          else (case required (RowIndex cell) of
                  Inl e \<Rightarrow> Inl e
                | Inr r \<Rightarrow>
                    (case required (ColumnIndex cell) of
                       Inl e \<Rightarrow> Inl e
                     | Inr c \<Rightarrow>
                         (case word_texts bmap (relationships_of cell) of
                            Inl e \<Rightarrow> Inl e
                          | Inr ts \<Rightarrow>
                              add_cells bmap cids (rows((r, c) \<mapsto> strip (join '' '' ts)))))))"

fun build_rows :: "block_map \<Rightarrow> relationship list \<Rightarrow> grid \<Rightarrow> py_error + grid" where
  \<comment> \<open>\<open>for rel in tbl.get("Relationships", [])\<close>\<close>
  "build_rows bmap [] rows = Inr rows"
| "build_rows bmap (rel # rels) rows =
     (if Type rel \<noteq> ''CHILD'' then build_rows bmap rels rows
      else case add_cells bmap (Ids rel) rows of
             Inl e \<Rightarrow> Inl e
           | Inr rows' \<Rightarrow> build_rows bmap rels rows')"

fun re_sub_Nd :: "string \<Rightarrow> string" where
  \<comment> \<open>\<open>re.sub(r"Nd.", "Ed.", s)\<close>: the dot is any character but the newline\<close>
  "re_sub_Nd (a # b # c # cs) =
     (if a = CHR ''N'' \<and> b = CHR ''d'' \<and> c \<noteq> CHR 0x0A then ''Ed.'' @ re_sub_Nd cs
      else a # re_sub_Nd (b # c # cs))"
| "re_sub_Nd cs = cs"

definition clean_residence :: "string \<Rightarrow> string" where
  \<comment> \<open>the chain that computes \<open>res_clean\<close> from \<open>res_raw\<close>\<close>
  "clean_residence res_raw =
     replace ''Njesia'' ''Sezione''
      (replace ''NJESIA'' ''Sezione''
        (replace ''ADMINISTRATIVE'' ''Amministrativa''
          (replace (''NJ'' @ [CHR 0xCB] @ ''SIA'') ''Sezione''
            (replace ''Administrative'' ''Amministrativa''
              (replace (''Nj'' @ [CHR 0xEB] @ ''sia'') ''Sezione''
                (replace ''Ap.'' ''App.''
                  (replace ''H.'' ''Int.''
                    (re_sub_Nd res_raw))))))))"

definition sesso_val_of :: "string \<Rightarrow> string" where
  "sesso_val_of cell =
     (let sesso_raw = upper (strip cell) in
      if sesso_raw = ''M'' then ''Maschio''
      else if sesso_raw = ''F'' then ''Femminile''
      else sesso_raw)"

definition get_or_empty :: "(string \<rightharpoonup> string) \<Rightarrow> string \<Rightarrow> string" where
  \<comment> \<open>\<open>result.get(k, "")\<close>, and \<open>result.get(k) or ""\<close>\<close>
  "get_or_empty result k = (case result k of None \<Rightarrow> [] | Some v \<Rightarrow> v)"

definition normalize_places :: "(string \<rightharpoonup> string) \<Rightarrow> (string \<rightharpoonup> string)" where
  \<comment> \<open>\<open>for k in ("Luogo di nascita", "Residenza"): result[k] = map_exonyms(result.get(k, ""))\<close>\<close>
  "normalize_places result =
     foldl (\<lambda>res k. res(k \<mapsto> map_exonyms (get_or_empty res k))) result
       [''Luogo di nascita'', ''Residenza'']"

definition normalize_citizenship :: "(string \<rightharpoonup> string) \<Rightarrow> (string \<rightharpoonup> string)" where
  "normalize_citizenship result =
     (let citt = upper (strip (get_or_empty result ''Cittadinanza'')) in
      if citt \<in> set [''ALB'', ''ALBANIA'', ''SHQIPTARE'', ''SHQIPTAR'']
      then result(''Cittadinanza'' \<mapsto> ''Albanese'')
      else result)"

definition result_literal :: "grid \<Rightarrow> string \<Rightarrow> string \<Rightarrow> string \<Rightarrow> (string \<rightharpoonup> string)" where
  \<comment> \<open>the dictionary display \<open>result = {...}\<close>\<close>
  "result_literal rows sesso_val stato seal =
     [''Nome'' \<mapsto> cell_at rows 2 2,
      ''Cognome'' \<mapsto> cell_at rows 3 2,
      ''Numero personale'' \<mapsto> cell_at rows 4 2,
      ''Nome del padre'' \<mapsto> cell_at rows 5 2,
      ''Nome della madre'' \<mapsto> cell_at rows 6 2,
      ''Data di nascita'' \<mapsto> cell_at rows 7 2,
      ''Luogo di nascita'' \<mapsto> cell_at rows 8 2,
      ''Residenza'' \<mapsto> cell_at rows 9 2,
      ''Sesso'' \<mapsto> sesso_val,
      ''Stato Civile'' \<mapsto> stato,
      ''Cittadinanza'' \<mapsto> cell_at rows 12 2,
      ''Cognome prima del matrimonio'' \<mapsto> cell_at rows 13 2,
      ''Data del rilascio'' \<mapsto> cell_at rows 14 2,
      ''ElectronicSeal'' \<mapsto> seal]"

definition clean_row_9 :: "grid \<Rightarrow> grid" where
  \<comment> \<open>\<open>if res_raw: rows[9][2] = res_clean\<close>\<close>
  "clean_row_9 rows =
     (let res_raw = cell_at rows 9 2 in
      if res_raw \<noteq> [] then rows((9, 2) \<mapsto> clean_residence res_raw) else rows)"

definition fields_of_rows :: "block list \<Rightarrow> block_map \<Rightarrow> grid \<Rightarrow> py_error + (string \<rightharpoonup> string)" where
  \<comment> \<open>\<open>extract_table_fields\<close> from the clean-up of row 9 on\<close>
  "fields_of_rows blocks bmap rows0 =
     (let rows = clean_row_9 rows0;
          sesso_val = sesso_val_of (cell_at rows 10 2)
      in case get_stato_from_vertical_boxes blocks bmap sesso_val of
           Inl e \<Rightarrow> Inl e
         | Inr stato \<Rightarrow>
             (case extract_seal_footer blocks of
                Inl e \<Rightarrow> Inl e
              | Inr seal \<Rightarrow>
                  Inr (normalize_citizenship (normalize_places
                         (result_literal rows sesso_val stato seal)))))"

definition extract_table_fields :: "block list \<Rightarrow> block_map \<Rightarrow> py_error + (string \<rightharpoonup> string)" where
  "extract_table_fields blocks bmap =
     (case find (\<lambda>b. BlockType b = ''TABLE'') blocks of
        None \<Rightarrow> Inr Map.empty
      | Some tbl \<Rightarrow>
          (case build_rows bmap (relationships_of tbl) Map.empty of
             Inl e \<Rightarrow> Inl e
           | Inr rows \<Rightarrow> fields_of_rows blocks bmap rows))"

section \<open>The header: Comune and Sezione\<close>

definition in_name_class :: "char \<Rightarrow> bool" where
  \<comment> \<open>the class of the \<open>Bashkia\<close> pattern: letters A to Z and a to z, \<open>CHR 0xC7\<close>, \<open>CHR 0xCB\<close>, \<open>CHR 0xEB\<close>, the hyphen\<close>
  "in_name_class c \<longleftrightarrow> c \<in> set (ascii_upper @ [CHR 0xC7, CHR 0xCB] @ ascii_lower @ [CHR 0xEB] @ ''-'')"

definition bashkia_at :: "string \<Rightarrow> string option" where
  \<comment> \<open>the pattern matched at the head of the string: \<open>Bashkia\<close>, white space, the captured name\<close>
  "bashkia_at s =
     (if startswith ''Bashkia'' s
      then let after_word = drop 7 s; after_space = dropWhile isspace after_word;
               name = takeWhile in_name_class after_space
           in if after_space = after_word \<or> name = [] then None else Some name
      else None)"

fun bashkia_search :: "string \<Rightarrow> string option" where
  \<comment> \<open>\<open>re.search\<close>: the leftmost match, its group 1\<close>
  "bashkia_search [] = None"
| "bashkia_search (c # cs) =
     (case bashkia_at (c # cs) of Some name \<Rightarrow> Some name | None \<Rightarrow> bashkia_search cs)"

fun header_scan :: "string list \<Rightarrow> string \<Rightarrow> string \<Rightarrow> py_error + string \<times> string" where
  \<comment> \<open>the loop over \<open>enumerate(lines)\<close>; the head of \<open>rest\<close> is \<open>lines[i+1]\<close>\<close>
  "header_scan [] comune sezione = Inr (comune, sezione)"
| "header_scan (l # rest) comune sezione =
     (let comune' =
        (if contains ''Bashkia'' l
         then (case bashkia_search l of None \<Rightarrow> comune | Some name \<Rightarrow> title name)
         else comune)
      in if contains (''Nj'' @ [CHR 0xEB] @ ''sia Administrative'') l \<or> contains ''Njesia Administrative'' l
         then (case split_after ''Administrative'' l of
                 None \<Rightarrow> Inl IndexError
               | Some after \<Rightarrow>
                   let suf = strip after;
                       suf' = (if lower suf \<in> set [''nr.'', ''nr'']
                               then suf @ '' '' @ (case rest of [] \<Rightarrow> [] | next_line # _ \<Rightarrow> next_line)
                               else suf)
                   in header_scan rest comune' (title suf'))
         else header_scan rest comune' sezione)"

definition extract_comune_sezione :: "block list \<Rightarrow> py_error + string \<times> string" where
  "extract_comune_sezione blocks =
     (case line_texts blocks of
        Inl e \<Rightarrow> Inl e
      | Inr lines \<Rightarrow>
          (case header_scan lines [] [] of
             Inl e \<Rightarrow> Inl e
           | Inr (comune, sezione) \<Rightarrow> Inr (map_exonyms comune, map_exonyms sezione)))"

section \<open>Sample documents\<close>

definition word_block :: "string \<Rightarrow> string \<Rightarrow> rat \<Rightarrow> rat \<Rightarrow> block" where
  "word_block i t y h =
     \<lparr>Id = i, BlockType = ''WORD'', Text = Some t,
      Geometry = Some \<lparr>Top = y, Height = h, Left = 0, Width = 0\<rparr>,
      RowIndex = None, ColumnIndex = None, Relationships = None\<rparr>"

definition line_block :: "string \<Rightarrow> string \<Rightarrow> block" where
  "line_block i t =
     \<lparr>Id = i, BlockType = ''LINE'', Text = Some t, Geometry = None,
      RowIndex = None, ColumnIndex = None, Relationships = None\<rparr>"

definition cell_block :: "string \<Rightarrow> int \<Rightarrow> int \<Rightarrow> string list \<Rightarrow> block" where
  "cell_block i r c word_ids =
     \<lparr>Id = i, BlockType = ''CELL'', Text = None, Geometry = None,
      RowIndex = Some r, ColumnIndex = Some c,
      Relationships = Some [\<lparr>Type = ''CHILD'', Ids = word_ids\<rparr>]\<rparr>"

definition table_block :: "string \<Rightarrow> string list \<Rightarrow> block" where
  "table_block i cell_ids =
     \<lparr>Id = i, BlockType = ''TABLE'', Text = None, Geometry = None,
      RowIndex = None, ColumnIndex = None,
      Relationships = Some [\<lparr>Type = ''CHILD'', Ids = cell_ids\<rparr>]\<rparr>"

definition status_words :: "block list" where
  \<comment> \<open>the four printed labels, one below the other\<close>
  "status_words =
     [word_block ''s0'' ''Beqar/e'' (1/10) (1/50),
      word_block ''s1'' ''Martuar'' (2/10) (1/50),
      word_block ''s2'' ''Shkurorezuar'' (3/10) (1/50),
      word_block ''s3'' ''Vedov/e'' (4/10) (1/50)]"

definition doc_divorced :: "block list" where
  \<comment> \<open>the labels and a mark level with the third of them\<close>
  "doc_divorced = status_words @ [word_block ''x'' ''X'' (31/100) (1/50)]"

definition doc_lines_only :: "block list" where
  \<comment> \<open>a page with no table\<close>
  "doc_lines_only = [line_block ''l1'' ''Bashkia Tirane'', word_block ''w1'' ''Bashkia'' 0 (1/50)]"

definition doc_table :: "block list" where
  \<comment> \<open>a table of two cells: the residence in row 9, the sex in row 10\<close>
  "doc_table =
     [table_block ''t'' [''c9'', ''c10''],
      cell_block ''c9'' 9 2 [''r1'', ''r2''],
      cell_block ''c10'' 10 2 [''g1''],
      word_block ''r1'' ''Rr.Durresit'' (1/2) (1/50),
      word_block ''r2'' ''Ap.4'' (1/2) (1/50),
      word_block ''g1'' ''Altro'' (6/10) (1/50)]"

definition doc_incomplete :: "block list" where
  \<comment> \<open>the two-cell table, a header line, and the administrative-unit keyword with a bare
      number marker on the last line\<close>
  "doc_incomplete =
     doc_table @
     [line_block ''h1'' (''Bashkia Tiran'' @ [CHR 0xEB]),
      line_block ''h2'' (''Nj'' @ [CHR 0xEB] @ ''sia Administrative Nr.'')]"

definition field_of :: "py_error + (string \<rightharpoonup> string) \<Rightarrow> string \<Rightarrow> string option" where
  \<comment> \<open>the value under a key of a returned record; \<open>None\<close> for an absent key or a raise\<close>
  "field_of res k = (case res of Inl e \<Rightarrow> None | Inr r \<Rightarrow> r k)"

definition output_keys :: "string list" where
  "output_keys =
     [''Nome'', ''Cognome'', ''Numero personale'', ''Nome del padre'', ''Nome della madre'',
      ''Data di nascita'', ''Luogo di nascita'', ''Residenza'', ''Sesso'', ''Stato Civile'',
      ''Cittadinanza'', ''Cognome prima del matrimonio'', ''Data del rilascio'', ''ElectronicSeal'']"

section \<open>Well-formed input and the words of the claims\<close>

definition block_ok :: "block_map \<Rightarrow> block \<Rightarrow> bool" where
  \<comment> \<open>every relationship id resolves, a CELL has its indices, a WORD and a LINE have a text,
      a WORD has a bounding box\<close>
  "block_ok bmap b \<longleftrightarrow>
     list_all (\<lambda>rel. list_all (\<lambda>i. bmap i \<noteq> None) (Ids rel)) (relationships_of b) \<and>
     (BlockType b = ''CELL'' \<longrightarrow> RowIndex b \<noteq> None \<and> ColumnIndex b \<noteq> None) \<and>
     (BlockType b = ''WORD'' \<or> BlockType b = ''LINE'' \<longrightarrow> Text b \<noteq> None) \<and>
     (BlockType b = ''WORD'' \<longrightarrow> Geometry b \<noteq> None)"

definition well_formed :: "block list \<Rightarrow> block_map \<Rightarrow> bool" where
  \<comment> \<open>the blocks of the list and the blocks the map holds are all well formed\<close>
  "well_formed blocks bmap \<longleftrightarrow> (\<forall>b \<in> set blocks \<union> ran bmap. block_ok bmap b)"

definition label_word :: "string \<Rightarrow> block \<Rightarrow> bool" where
  \<comment> \<open>a WORD block whose trimmed, lower-cased text contains the fragment\<close>
  "label_word frag w \<longleftrightarrow>
     BlockType w = ''WORD'' \<and>
     (case Text w of None \<Rightarrow> False | Some t \<Rightarrow> contains frag (lower (strip t)))"

definition fragment_found :: "block list \<Rightarrow> string \<Rightarrow> bool" where
  "fragment_found blocks frag \<longleftrightarrow> list_ex (label_word frag) blocks"

definition all_fragments_found :: "block list \<Rightarrow> bool" where
  "all_fragments_found blocks \<longleftrightarrow> list_all (fragment_found blocks) (map fst fragments)"

definition is_mark :: "block \<Rightarrow> bool" where
  \<comment> \<open>a WORD block whose trimmed, lower-cased text is \<open>x\<close>, \<open>x.\<close> or \<open>x,\<close>\<close>
  "is_mark w \<longleftrightarrow>
     BlockType w = ''WORD'' \<and>
     (case Text w of None \<Rightarrow> False | Some t \<Rightarrow> lower (strip t) \<in> set [''x'', ''x.'', ''x,''])"

definition mark_present :: "block list \<Rightarrow> bool" where
  "mark_present blocks \<longleftrightarrow> list_ex is_mark blocks"

definition centre_of :: "block option \<Rightarrow> rat option" where
  "centre_of w = (case w of None \<Rightarrow> None | Some b \<Rightarrow> map_option centre_y (Geometry b))"

definition label_centre :: "block list \<Rightarrow> string \<Rightarrow> rat option" where
  \<comment> \<open>the vertical centre of the first WORD block that holds the fragment\<close>
  "label_centre blocks frag = centre_of (find (label_word frag) blocks)"

definition mark_centre :: "block list \<Rightarrow> rat option" where
  \<comment> \<open>the vertical centre of the first mark\<close>
  "mark_centre blocks = centre_of (find is_mark blocks)"

definition stato_values :: "string list" where
  "stato_values =
     [not_recognised] @ male @ female @ map (\<lambda>i. male ! i @ '' / '' @ female ! i) [0..<4]"

definition first_nearest :: "rat \<Rightarrow> (nat \<times> rat) list \<Rightarrow> nat \<times> rat \<Rightarrow> bool" where
  \<comment> \<open>\<open>p\<close> is an entry, no entry is nearer to \<open>x\<close>, and every entry ahead of \<open>p\<close> is farther\<close>
  "first_nearest x entries p \<longleftrightarrow>
     p \<in> set entries \<and>
     list_all (\<lambda>q. \<bar>snd p - x\<bar> \<le> \<bar>snd q - x\<bar>) entries \<and>
     list_all (\<lambda>q. \<bar>snd p - x\<bar> < \<bar>snd q - x\<bar>) (takeWhile (\<lambda>q. q \<noteq> p) entries)"

definition italian_form :: "string \<Rightarrow> nat \<Rightarrow> string" where
  \<comment> \<open>the form for a label index below 4, by the first letter of the gender\<close>
  "italian_form gender i =
     (if startswith ''f'' (lower gender) then female ! i
      else if startswith ''m'' (lower gender) then male ! i
      else male ! i @ '' / '' @ female ! i)"

definition words_ok :: "block list \<Rightarrow> bool" where
  \<comment> \<open>every WORD block has a text and a bounding box\<close>
  "words_ok blocks \<longleftrightarrow>
     list_all (\<lambda>w. BlockType w = ''WORD'' \<longrightarrow> Text w \<noteq> None \<and> Geometry w \<noteq> None) blocks"

definition table_rows :: "block list \<Rightarrow> block_map \<Rightarrow> grid option" where
  \<comment> \<open>the grid \<open>extract_table_fields\<close> builds from the first TABLE block, when there is one
      and building it does not raise\<close>
  "table_rows blocks bmap =
     (case find (\<lambda>b. BlockType b = ''TABLE'') blocks of
        None \<Rightarrow> None
      | Some tbl \<Rightarrow>
          (case build_rows bmap (relationships_of tbl) Map.empty of
             Inl e \<Rightarrow> None
           | Inr rows \<Rightarrow> Some rows))"










function words_map :: "(string \<Rightarrow> string) \<Rightarrow> string \<Rightarrow> string" where
  \<comment> \<open>rewrite every maximal run of \<open>\w\<close> characters by \<open>f\<close> and keep the rest\<close>
  "words_map f [] = []"
| "words_map f (c # cs) =
     (if is_word c then f (c # takeWhile is_word cs) @ words_map f (dropWhile is_word cs)
      else c # words_map f cs)"
  by pat_completeness auto
termination
  by (relation "measure (\<lambda>(f, s). length s)") (auto simp: length_dropWhile_le less_Suc_eq_le)

definition full_match :: "pattern \<Rightarrow> string \<Rightarrow> bool" where
  \<comment> \<open>the whole string matches the classes of the pattern, one character each\<close>
  "full_match pat w \<longleftrightarrow> length w = length pat \<and> classes_match pat w"

definition rewrite_word :: "pattern \<Rightarrow> string \<Rightarrow> string \<Rightarrow> string" where
  "rewrite_word pat repl w = (if full_match pat w then repl else w)"

definition good_pattern :: "pattern \<Rightarrow> bool" where
  \<comment> \<open>not empty, and every class holds \<open>\w\<close> characters only\<close>
  "good_pattern pat \<longleftrightarrow> pat \<noteq> [] \<and> list_all (list_all is_word) pat"

section \<open>Properties of the record\<close>

lemma dom_normalize_places:
  "dom (normalize_places m) = dom m \<union> {''Luogo di nascita'', ''Residenza''}"
  by (auto simp: normalize_places_def)

lemma dom_normalize_citizenship:
  "''Cittadinanza'' \<in> dom m \<Longrightarrow> dom (normalize_citizenship m) = dom m"
  by (auto simp: normalize_citizenship_def Let_def)

lemma fields_of_rows_dom:
  assumes "fields_of_rows blocks bmap rows = Inr r"
  shows "dom r = set output_keys"
proof -
  from assms obtain rows' s st se
    where r: "r = normalize_citizenship (normalize_places (result_literal rows' s st se))"
    unfolding fields_of_rows_def Let_def
    by (auto split: sum.splits)
  define m where "m = result_literal rows' s st se"
  have m: "dom m = set output_keys"
    by (auto simp: m_def result_literal_def output_keys_def)
  note r = r [folded m_def]
  have "''Cittadinanza'' \<in> dom (normalize_places m)"
    using m by (simp add: dom_normalize_places output_keys_def)
  then have "dom r = dom (normalize_places m)"
    unfolding r by (rule dom_normalize_citizenship)
  then show ?thesis using m by (auto simp: dom_normalize_places output_keys_def)
qed

text \<open>
  C2: when no block of the list has the type TABLE, \<open>extract_table_fields\<close> returns the
  empty mapping, whatever else the list and the block map hold.
\<close>

theorem no_table_empty_mapping:
  assumes "\<forall>b \<in> set blocks. BlockType b \<noteq> ''TABLE''"
  shows "extract_table_fields blocks bmap = Inr Map.empty"
proof -
  have "find (\<lambda>b. BlockType b = ''TABLE'') blocks = None"
    using assms by (simp add: find_None_iff)
  then show ?thesis by (simp add: extract_table_fields_def)
qed

theorem no_table_empty_mapping_witness:
  "list_all (\<lambda>b. BlockType b \<noteq> ''TABLE'') doc_lines_only \<and>
   extract_table_fields doc_lines_only (bmap_of doc_lines_only) = Inr Map.empty"
proof -
  have h: "\<forall>b \<in> set doc_lines_only. BlockType b \<noteq> ''TABLE''"
    by (simp add: doc_lines_only_def line_block_def word_block_def)
  show ?thesis using h no_table_empty_mapping [OF h] by (simp add: list_all_iff)
qed

section \<open>Properties of the civil status resolver\<close>

subsection \<open>The inner loop\<close>

lemma record_fragments_total:
  "Geometry w \<noteq> None \<Longrightarrow> \<exists>cs'. record_fragments w t fs cs = Inr cs'"
  by (induction fs arbitrary: cs) (auto simp: required_def)

lemma record_fragments_skip:
  "\<not> (contains frag t \<and> idx \<notin> fst ` set cs) \<Longrightarrow>
   record_fragments w t ((frag, idx) # fs) cs = record_fragments w t fs cs"
  by auto

lemma record_fragments_take:
  "contains frag t \<and> idx \<notin> fst ` set cs \<Longrightarrow>
   record_fragments w t ((frag, idx) # fs) cs =
     (case Geometry w of
        None \<Rightarrow> Inl KeyError
      | Some bb \<Rightarrow> record_fragments w t fs (cs @ [(idx, centre_y bb)]))"
  by (auto simp: required_def split: option.splits)

lemma record_fragments_untouched:
  "record_fragments w t fs cs = Inr cs' \<Longrightarrow> idx \<notin> snd ` set fs \<Longrightarrow> map_of cs' idx = map_of cs idx"
proof (induction fs arbitrary: cs)
  case Nil
  then show ?case by simp
next
  case (Cons p fs)
  obtain frag' idx' where p: "p = (frag', idx')" by (cases p)
  from Cons.prems(2) have ne: "idx \<noteq> idx'" and rest: "idx \<notin> snd ` set fs"
    by (auto simp: p)
  show ?case
  proof (cases "contains frag' t \<and> idx' \<notin> fst ` set cs")
    case True
    from Cons.prems(1) obtain bb where bb: "Geometry w = Some bb"
      and run: "record_fragments w t fs (cs @ [(idx', centre_y bb)]) = Inr cs'"
      unfolding p record_fragments_take [OF True] by (auto split: option.splits)
    from Cons.IH [OF run rest] ne show ?thesis by (auto simp: map_add_def split: option.splits)
  next
    case False
    from Cons.prems(1) have "record_fragments w t fs cs = Inr cs'"
      unfolding p record_fragments_skip [OF False] .
    from Cons.IH [OF this rest] show ?thesis .
  qed
qed

lemma record_fragments_entry:
  "record_fragments w t fs cs = Inr cs' \<Longrightarrow> distinct (map snd fs) \<Longrightarrow> (frag, idx) \<in> set fs \<Longrightarrow>
   map_of cs' idx =
     (case map_of cs idx of
        Some y \<Rightarrow> Some y
      | None \<Rightarrow> if contains frag t then map_option centre_y (Geometry w) else None) \<and>
   (map_of cs idx = None \<and> contains frag t \<longrightarrow> Geometry w \<noteq> None)"
proof (induction fs arbitrary: cs)
  case Nil
  then show ?case by simp
next
  case (Cons p fs)
  obtain frag' idx' where p: "p = (frag', idx')" by (cases p)
  from Cons.prems(2) have dist: "distinct (map snd fs)" and fresh: "idx' \<notin> snd ` set fs"
    by (auto simp: p)
  have keys: "idx' \<notin> fst ` set cs \<longleftrightarrow> map_of cs idx' = None"
    by (simp add: map_of_eq_None_iff)
  show ?case
  proof (cases "(frag, idx) = (frag', idx')")
    case True
    then have eq: "frag = frag'" "idx = idx'" by simp_all
    show ?thesis
    proof (cases "contains frag' t \<and> idx' \<notin> fst ` set cs")
      case True
      from Cons.prems(1) obtain bb where bb: "Geometry w = Some bb"
        and run: "record_fragments w t fs (cs @ [(idx', centre_y bb)]) = Inr cs'"
        unfolding p record_fragments_take [OF True] by (auto split: option.splits)
      from record_fragments_untouched [OF run fresh] True bb keys
      show ?thesis by (simp add: eq map_add_def)
    next
      case False
      from Cons.prems(1) have run: "record_fragments w t fs cs = Inr cs'"
        unfolding p record_fragments_skip [OF False] .
      from record_fragments_untouched [OF run fresh] False keys
      show ?thesis by (auto simp: eq split: option.splits)
    qed
  next
    case False
    with Cons.prems(3) have mem: "(frag, idx) \<in> set fs" by (auto simp: p)
    with fresh have ne: "idx \<noteq> idx'" by force
    show ?thesis
    proof (cases "contains frag' t \<and> idx' \<notin> fst ` set cs")
      case True
      from Cons.prems(1) obtain bb where bb: "Geometry w = Some bb"
        and run: "record_fragments w t fs (cs @ [(idx', centre_y bb)]) = Inr cs'"
        unfolding p record_fragments_take [OF True] by (auto split: option.splits)
      from Cons.IH [OF run dist mem] ne show ?thesis by (auto simp: map_add_def split: option.splits)
    next
      case False
      from Cons.prems(1) have run: "record_fragments w t fs cs = Inr cs'"
        unfolding p record_fragments_skip [OF False] .
      from Cons.IH [OF run dist mem] show ?thesis .
    qed
  qed
qed

lemma record_fragments_keys:
  "record_fragments w t fs cs = Inr cs' \<Longrightarrow> fst ` set cs' \<subseteq> fst ` set cs \<union> snd ` set fs"
proof (induction fs arbitrary: cs)
  case Nil
  then show ?case by simp
next
  case (Cons p fs)
  obtain frag' idx' where p: "p = (frag', idx')" by (cases p)
  show ?case
  proof (cases "contains frag' t \<and> idx' \<notin> fst ` set cs")
    case True
    from Cons.prems obtain bb where
      run: "record_fragments w t fs (cs @ [(idx', centre_y bb)]) = Inr cs'"
      unfolding p record_fragments_take [OF True] by (auto split: option.splits)
    from Cons.IH [OF run] show ?thesis by (auto simp: p)
  next
    case False
    from Cons.prems have "record_fragments w t fs cs = Inr cs'"
      unfolding p record_fragments_skip [OF False] .
    from Cons.IH [OF this] show ?thesis by (auto simp: p)
  qed
qed

lemma record_fragments_distinct:
  "record_fragments w t fs cs = Inr cs' \<Longrightarrow> distinct (map fst cs) \<Longrightarrow> distinct (map fst cs')"
proof (induction fs arbitrary: cs)
  case Nil
  then show ?case by simp
next
  case (Cons p fs)
  obtain frag' idx' where p: "p = (frag', idx')" by (cases p)
  show ?case
  proof (cases "contains frag' t \<and> idx' \<notin> fst ` set cs")
    case True
    from Cons.prems(1) obtain bb where
      run: "record_fragments w t fs (cs @ [(idx', centre_y bb)]) = Inr cs'"
      unfolding p record_fragments_take [OF True] by (auto split: option.splits)
    from True Cons.prems(2) have "distinct (map fst (cs @ [(idx', centre_y bb)]))" by simp
    from Cons.IH [OF run this] show ?thesis .
  next
    case False
    from Cons.prems(1) have "record_fragments w t fs cs = Inr cs'"
      unfolding p record_fragments_skip [OF False] .
    from Cons.IH [OF this Cons.prems(2)] show ?thesis .
  qed
qed


subsection \<open>The outer loop\<close>

lemma fragments_distinct: "distinct (map snd fragments)"
  by (simp add: fragments_def)

lemma fragments_indices: "snd ` set fragments = {0, 1, 2, 3}"
  by (auto simp: fragments_def)

lemma locate_centres_step:
  assumes "locate_centres (w # ws) cs = Inr cs'"
  shows "(BlockType w \<noteq> ''WORD'' \<and> locate_centres ws cs = Inr cs') \<or>
         (BlockType w = ''WORD'' \<and>
          (\<exists>t cs1. Text w = Some t \<and>
             record_fragments w (lower (strip t)) fragments cs = Inr cs1 \<and>
             locate_centres ws cs1 = Inr cs'))"
  using assms by (auto simp: required_def split: if_splits option.splits sum.splits)

lemma locate_centres_total:
  "\<forall>w \<in> set ws. BlockType w = ''WORD'' \<longrightarrow> Text w \<noteq> None \<and> Geometry w \<noteq> None \<Longrightarrow>
   \<exists>cs'. locate_centres ws cs = Inr cs'"
proof (induction ws arbitrary: cs)
  case Nil
  then show ?case by simp
next
  case (Cons w ws)
  show ?case
  proof (cases "BlockType w = ''WORD''")
    case True
    with Cons.prems obtain t where t: "Text w = Some t" and g: "Geometry w \<noteq> None" by auto
    from record_fragments_total [OF g] obtain cs1
      where "record_fragments w (lower (strip t)) fragments cs = Inr cs1" by blast
    moreover from Cons.IH [of cs1] Cons.prems obtain cs' where "locate_centres ws cs1 = Inr cs'"
      by auto
    ultimately show ?thesis using True t by (simp add: required_def)
  next
    case False
    with Cons.IH [of cs] Cons.prems show ?thesis by auto
  qed
qed

lemma locate_centres_keys:
  "locate_centres ws cs = Inr cs' \<Longrightarrow> fst ` set cs' \<subseteq> fst ` set cs \<union> snd ` set fragments"
proof (induction ws arbitrary: cs)
  case Nil
  then show ?case by simp
next
  case (Cons w ws)
  from locate_centres_step [OF Cons.prems] show ?case
  proof (elim disjE conjE exE)
    assume "locate_centres ws cs = Inr cs'"
    from Cons.IH [OF this] show ?thesis .
  next
    fix t cs1
    assume rf: "record_fragments w (lower (strip t)) fragments cs = Inr cs1"
      and lc: "locate_centres ws cs1 = Inr cs'"
    from Cons.IH [OF lc] record_fragments_keys [OF rf] show ?thesis by blast
  qed
qed

lemma locate_centres_distinct:
  "locate_centres ws cs = Inr cs' \<Longrightarrow> distinct (map fst cs) \<Longrightarrow> distinct (map fst cs')"
proof (induction ws arbitrary: cs)
  case Nil
  then show ?case by simp
next
  case (Cons w ws)
  from locate_centres_step [OF Cons.prems(1)] show ?case
  proof (elim disjE conjE exE)
    assume "locate_centres ws cs = Inr cs'"
    from Cons.IH [OF this Cons.prems(2)] show ?thesis .
  next
    fix t cs1
    assume rf: "record_fragments w (lower (strip t)) fragments cs = Inr cs1"
      and lc: "locate_centres ws cs1 = Inr cs'"
    from Cons.IH [OF lc record_fragments_distinct [OF rf Cons.prems(2)]] show ?thesis .
  qed
qed

lemma label_centre_Cons:
  "label_centre (w # ws) frag =
     (if label_word frag w then map_option centre_y (Geometry w) else label_centre ws frag)"
  by (simp add: label_centre_def centre_of_def)

lemma fragment_found_Cons:
  "fragment_found (w # ws) frag \<longleftrightarrow> label_word frag w \<or> fragment_found ws frag"
  by (simp add: fragment_found_def)

lemma locate_centres_entry:
  "locate_centres ws cs = Inr cs' \<Longrightarrow> (frag, idx) \<in> set fragments \<Longrightarrow>
   map_of cs' idx = (case map_of cs idx of Some y \<Rightarrow> Some y | None \<Rightarrow> label_centre ws frag) \<and>
   (map_of cs idx = None \<and> fragment_found ws frag \<longrightarrow> map_of cs' idx \<noteq> None)"
proof (induction ws arbitrary: cs)
  case Nil
  then show ?case
    by (auto simp: label_centre_def centre_of_def fragment_found_def split: option.splits)
next
  case (Cons w ws)
  from locate_centres_step [OF Cons.prems(1)] show ?case
  proof (elim disjE conjE exE)
    assume nw: "BlockType w \<noteq> ''WORD''" and lc: "locate_centres ws cs = Inr cs'"
    from nw have "\<not> label_word frag w" by (simp add: label_word_def)
    then have eq: "label_centre (w # ws) frag = label_centre ws frag"
      "fragment_found (w # ws) frag = fragment_found ws frag"
      by (simp_all add: label_centre_Cons fragment_found_Cons)
    from Cons.IH [OF lc Cons.prems(2)] show ?thesis unfolding eq .
  next
    fix t cs1
    assume w: "BlockType w = ''WORD''" and t: "Text w = Some t"
      and rf: "record_fragments w (lower (strip t)) fragments cs = Inr cs1"
      and lc: "locate_centres ws cs1 = Inr cs'"
    from w t have lw: "label_word frag w \<longleftrightarrow> contains frag (lower (strip t))"
      by (simp add: label_word_def)
    note e1 = record_fragments_entry [OF rf fragments_distinct Cons.prems(2), THEN conjunct1]
      record_fragments_entry [OF rf fragments_distinct Cons.prems(2), THEN conjunct2]
    note e2 = Cons.IH [OF lc Cons.prems(2), THEN conjunct1] Cons.IH [OF lc Cons.prems(2), THEN conjunct2]
    show ?thesis
    proof (cases "map_of cs idx")
      case (Some y)
      with e1 e2 show ?thesis by simp
    next
      case None
      show ?thesis
      proof (cases "label_word frag w")
        case True
        with lw None e1 obtain bb where "Geometry w = Some bb" "map_of cs1 idx = Some (centre_y bb)"
          by auto
        with e2 None True show ?thesis by (simp add: label_centre_Cons fragment_found_Cons)
      next
        case False
        with lw None e1 have "map_of cs1 idx = None" by simp
        with e2 None False show ?thesis by (simp add: label_centre_Cons fragment_found_Cons)
      qed
    qed
  qed
qed

lemma label_centre_found:
  "label_centre ws frag \<noteq> None \<Longrightarrow> fragment_found ws frag"
  by (auto simp: label_centre_def centre_of_def fragment_found_def list_ex_iff find_Some_iff
      split: option.splits)

lemma centres_found:
  assumes "locate_centres ws [] = Inr cs" and "(frag, idx) \<in> set fragments"
  shows "map_of cs idx = label_centre ws frag"
    and "map_of cs idx \<noteq> None \<longleftrightarrow> fragment_found ws frag"
proof -
  have e: "map_of cs idx = label_centre ws frag"
    using locate_centres_entry [OF assms, THEN conjunct1] by simp
  have f: "fragment_found ws frag \<longrightarrow> map_of cs idx \<noteq> None"
    using locate_centres_entry [OF assms, THEN conjunct2] by simp
  show "map_of cs idx = label_centre ws frag" by (rule e)
  show "map_of cs idx \<noteq> None \<longleftrightarrow> fragment_found ws frag"
    using e f label_centre_found [of ws frag] by auto
qed

lemma centres_length:
  assumes "locate_centres ws [] = Inr cs"
  shows "length cs < 4 \<longleftrightarrow> \<not> all_fragments_found ws"
proof -
  have d: "distinct (map fst cs)" using locate_centres_distinct [OF assms] by simp
  have k: "fst ` set cs \<subseteq> {0, 1, 2, 3}"
    using locate_centres_keys [OF assms] by (simp add: fragments_indices)
  have len: "length cs = card (fst ` set cs)"
    using distinct_card [OF d] by simp
  have mem: "idx \<in> fst ` set cs \<longleftrightarrow> fragment_found ws frag" if "(frag, idx) \<in> set fragments" for frag idx
    using centres_found(2) [OF assms that] by (simp add: map_of_eq_None_iff)
  have all: "all_fragments_found ws \<longleftrightarrow> {0, 1, 2, 3} \<subseteq> fst ` set cs"
    using mem [of "''beqar''" 0] mem [of "''martu''" 1] mem [of "''shkuror''" 2] mem [of "''vedov''" 3]
    by (simp add: all_fragments_found_def fragments_def)
  show ?thesis
  proof
    assume "length cs < 4"
    then have "card (fst ` set cs) < card {0::nat, 1, 2, 3}" by (simp add: len)
    then have "\<not> {0, 1, 2, 3} \<subseteq> fst ` set cs"
      by (metis card_mono finite_imageI finite_set not_less)
    then show "\<not> all_fragments_found ws" by (simp add: all)
  next
    assume "\<not> all_fragments_found ws"
    then have "fst ` set cs \<noteq> {0, 1, 2, 3}" by (auto simp: all)
    with k have "fst ` set cs \<subset> {0, 1, 2, 3}" by blast
    then have "card (fst ` set cs) < card {0::nat, 1, 2, 3}"
      by (intro psubset_card_mono) auto
    then show "length cs < 4" by (simp add: len)
  qed
qed


subsection \<open>The mark and the minimum\<close>

lemma find_x_block_find: "find_x_block ws = Inr r \<Longrightarrow> r = find is_mark ws"
  by (induction ws) (auto simp: is_mark_def required_def split: if_splits option.splits)

lemma find_x_block_total:
  "\<forall>w \<in> set ws. BlockType w = ''WORD'' \<longrightarrow> Text w \<noteq> None \<Longrightarrow> \<exists>r. find_x_block ws = Inr r"
  by (induction ws) (auto simp: required_def)

lemma find_is_mark: "find is_mark ws = None \<longleftrightarrow> \<not> mark_present ws"
  by (auto simp: mark_present_def list_ex_iff find_None_iff)

lemma min_from_split:
  "\<exists>pre post. b # xs = pre @ min_from key b xs # post \<and>
     (\<forall>p \<in> set pre. key (min_from key b xs) < key p) \<and>
     (\<forall>p \<in> set post. key (min_from key b xs) \<le> key p)"
proof (induction xs arbitrary: b)
  case Nil
  have "[b] = [] @ min_from key b [] # [] \<and>
     (\<forall>p \<in> set []. key (min_from key b []) < key p) \<and>
     (\<forall>p \<in> set []. key (min_from key b []) \<le> key p)" by simp
  then show ?case by blast
next
  case (Cons x xs)
  show ?case
  proof (cases "key x < key b")
    case True
    define m where "m = min_from key x xs"
    from Cons.IH [of x] obtain pre post where s: "x # xs = pre @ m # post"
      and lt: "\<forall>p \<in> set pre. key m < key p" and le: "\<forall>p \<in> set post. key m \<le> key p"
      unfolding m_def by blast
    have "key m \<le> key x"
    proof (cases pre)
      case Nil
      with s show ?thesis by simp
    next
      case (Cons a pre')
      with s lt show ?thesis by auto
    qed
    with True have "key m < key b" by simp
    with s lt le have "b # x # xs = (b # pre) @ m # post \<and>
       (\<forall>p \<in> set (b # pre). key m < key p) \<and> (\<forall>p \<in> set post. key m \<le> key p)" by simp
    moreover have "min_from key b (x # xs) = m" using True by (simp add: m_def)
    ultimately show ?thesis by blast
  next
    case False
    define m where "m = min_from key b xs"
    from Cons.IH [of b] obtain pre post where s: "b # xs = pre @ m # post"
      and lt: "\<forall>p \<in> set pre. key m < key p" and le: "\<forall>p \<in> set post. key m \<le> key p"
      unfolding m_def by blast
    have m: "min_from key b (x # xs) = m" using False by (simp add: m_def)
    show ?thesis
    proof (cases pre)
      case Nil
      with s have "m = b" "post = xs" by simp_all
      with False le have "b # x # xs = [] @ m # (x # xs) \<and>
        (\<forall>p \<in> set []. key m < key p) \<and> (\<forall>p \<in> set (x # xs). key m \<le> key p)" by auto
      with m show ?thesis by metis
    next
      case (Cons a pre')
      with s have a: "a = b" and s': "xs = pre' @ m # post" by simp_all
      from lt Cons a have "key m < key b" by simp
      with False have "key m < key x" by simp
      with s' lt Cons a le have "b # x # xs = (b # x # pre') @ m # post \<and>
        (\<forall>p \<in> set (b # x # pre'). key m < key p) \<and> (\<forall>p \<in> set post. key m \<le> key p)" by simp
      with m show ?thesis by metis
    qed
  qed
qed

lemma py_min_first_nearest:
  assumes "py_min (\<lambda>p. \<bar>snd p - x\<bar>) entries = Inr p"
  shows "first_nearest x entries p"
proof -
  let ?key = "\<lambda>p. \<bar>snd p - x\<bar>"
  from assms obtain b xs where e: "entries = b # xs" and p: "p = min_from ?key b xs"
    by (auto simp: py_min_def split: list.splits)
  from min_from_split [of b xs ?key] obtain pre post where s: "entries = pre @ p # post"
    and lt: "\<forall>q \<in> set pre. ?key p < ?key q" and le: "\<forall>q \<in> set post. ?key p \<le> ?key q"
    unfolding e p by blast
  from lt have "\<forall>q \<in> set pre. q \<noteq> p" by auto
  then have "takeWhile (\<lambda>q. q \<noteq> p) entries = pre"
    unfolding s by (simp add: takeWhile_append2)
  with s lt le show ?thesis
    by (auto simp: first_nearest_def list_all_iff less_imp_le)
qed

lemma py_min_total: "entries \<noteq> [] \<Longrightarrow> \<exists>p. py_min key entries = Inr p"
  by (cases entries) (simp_all add: py_min_def)

lemma gendered_form_Inr: "i < 4 \<Longrightarrow> gendered_form gender i = Inr (italian_form gender i)"
  by (simp add: gendered_form_def italian_form_def index_def male_def female_def Let_def)

lemma italian_form_values: "i < 4 \<Longrightarrow> italian_form gender i \<in> set stato_values"
proof -
  assume "i < 4"
  then have "i = 0 \<or> i = 1 \<or> i = 2 \<or> i = 3" by arith
  then show ?thesis
    by (elim disjE) (simp_all add: italian_form_def stato_values_def male_def female_def upt_rec)
qed

lemma italian_form_recognised: "i < 4 \<Longrightarrow> italian_form gender i \<noteq> not_recognised"
proof -
  assume "i < 4"
  then have "i = 0 \<or> i = 1 \<or> i = 2 \<or> i = 3" by arith
  then show ?thesis
    by (elim disjE) (simp_all add: italian_form_def not_recognised_def male_def female_def)
qed


subsection \<open>The resolver as a whole\<close>

lemma chosen_index_bound:
  assumes "locate_centres blocks [] = Inr cs" and "first_nearest x (sort_key snd cs) (best, y)"
  shows "best < 4" and "map_of cs best = Some y"
proof -
  from assms(2) have mem: "(best, y) \<in> set cs" by (simp add: first_nearest_def)
  then have "best \<in> fst ` set cs" by force
  with locate_centres_keys [OF assms(1)] have "best \<in> {0, 1, 2, 3}"
    by (auto simp: fragments_indices)
  then show "best < 4" by auto
  have "distinct (map fst cs)" using locate_centres_distinct [OF assms(1)] by simp
  with mem show "map_of cs best = Some y" by simp
qed

lemma stato_result:
  assumes "get_stato_from_vertical_boxes blocks bmap gender = Inr s"
  shows "(\<not> all_fragments_found blocks \<or> \<not> mark_present blocks) \<and> s = not_recognised \<or>
         all_fragments_found blocks \<and> mark_present blocks \<and>
         (\<exists>cs x best y. locate_centres blocks [] = Inr cs \<and> mark_centre blocks = Some x \<and>
            first_nearest x (sort_key snd cs) (best, y) \<and> best < 4 \<and>
            s = italian_form gender best)"
proof -
  from assms obtain cs where lc: "locate_centres blocks [] = Inr cs"
    by (auto simp: get_stato_from_vertical_boxes_def split: sum.splits)
  show ?thesis
  proof (cases "length cs < 4")
    case True
    with assms lc have "s = not_recognised" by (simp add: get_stato_from_vertical_boxes_def)
    with True centres_length [OF lc] show ?thesis by simp
  next
    case False
    with centres_length [OF lc] have found: "all_fragments_found blocks" by simp
    from assms lc False obtain xb where fx: "find_x_block blocks = Inr xb"
      by (auto simp: get_stato_from_vertical_boxes_def Let_def split: sum.splits)
    note xb = find_x_block_find [OF fx]
    show ?thesis
    proof (cases xb)
      case None
      with assms lc False fx have "s = not_recognised"
        by (simp add: get_stato_from_vertical_boxes_def Let_def)
      moreover from None xb have "\<not> mark_present blocks" by (simp add: find_is_mark [symmetric])
      ultimately show ?thesis by simp
    next
      case (Some w)
      with xb have mark: "mark_present blocks"
        using find_is_mark [of blocks] by auto
      from assms lc False fx Some obtain bbx where g: "Geometry w = Some bbx"
        by (auto simp: get_stato_from_vertical_boxes_def Let_def required_def
            split: sum.splits option.splits)
      define x where "x = centre_y bbx"
      from Some xb g have mc: "mark_centre blocks = Some x"
        by (simp add: mark_centre_def centre_of_def x_def)
      from assms lc False fx Some g obtain best y
        where pm: "py_min (\<lambda>p. \<bar>snd p - x\<bar>) (sort_key snd cs) = Inr (best, y)"
          and gf: "gendered_form gender best = Inr s"
        by (auto simp: get_stato_from_vertical_boxes_def Let_def required_def x_def
            split: sum.splits prod.splits)
      note fnr = py_min_first_nearest [OF pm]
      note b = chosen_index_bound(1) [OF lc fnr]
      with gf have "s = italian_form gender best"
        by (simp add: gendered_form_Inr)
      with found mark lc mc fnr b show ?thesis by blast
    qed
  qed
qed

lemma words_ok_iff:
  "words_ok blocks \<longleftrightarrow>
     (\<forall>w \<in> set blocks. BlockType w = ''WORD'' \<longrightarrow> Text w \<noteq> None \<and> Geometry w \<noteq> None)"
  by (simp add: words_ok_def list_all_iff)

lemma stato_total:
  assumes "words_ok blocks"
  shows "\<exists>s. get_stato_from_vertical_boxes blocks bmap gender = Inr s"
proof -
  from assms have ok: "\<forall>w \<in> set blocks. BlockType w = ''WORD'' \<longrightarrow> Text w \<noteq> None \<and> Geometry w \<noteq> None"
    by (simp add: words_ok_iff)
  from locate_centres_total [OF ok] obtain cs where lc: "locate_centres blocks [] = Inr cs"
    by blast
  show ?thesis
  proof (cases "length cs < 4")
    case True
    with lc show ?thesis by (simp add: get_stato_from_vertical_boxes_def)
  next
    case False
    from ok have "\<forall>w \<in> set blocks. BlockType w = ''WORD'' \<longrightarrow> Text w \<noteq> None" by blast
    from find_x_block_total [OF this] obtain xb where fx: "find_x_block blocks = Inr xb" by blast
    note xb = find_x_block_find [OF fx]
    show ?thesis
    proof (cases xb)
      case None
      with lc False fx show ?thesis by (simp add: get_stato_from_vertical_boxes_def Let_def)
    next
      case (Some w)
      with xb have "find is_mark blocks = Some w" by simp
      then have "w \<in> set blocks" "is_mark w" by (auto simp: find_Some_iff in_set_conv_nth)
      with ok obtain bbx where g: "Geometry w = Some bbx" by (auto simp: is_mark_def)
      define x where "x = centre_y bbx"
      from False have "sort_key snd cs \<noteq> []" by (cases cs) auto
      from py_min_total [OF this] obtain p
        where pm: "py_min (\<lambda>p. \<bar>snd p - x\<bar>) (sort_key snd cs) = Inr p" by blast
      obtain best y where p: "p = (best, y)" by (cases p)
      from py_min_first_nearest [OF pm [unfolded p]] chosen_index_bound(1) [OF lc]
      have "best < 4" by blast
      then have "gendered_form gender best = Inr (italian_form gender best)"
        by (rule gendered_form_Inr)
      with lc False fx Some g pm p show ?thesis
        by (simp add: get_stato_from_vertical_boxes_def Let_def required_def x_def)
    qed
  qed
qed

text \<open>
  C3: a returned status is the sentinel \<open>[X] Stato non riconosciuto\<close> exactly when not all
  four fragments (beqar, martu, shkuror, vedov) occur in the trimmed, lower-cased text of some
  WORD block, or no WORD block has the trimmed, lower-cased text \<open>x\<close>, \<open>x.\<close> or \<open>x,\<close>. So
  with fewer than four fragments found the sentinel comes back whether a mark is there or
  not. The resolver returns whenever every WORD block has a text and a bounding box.
\<close>

theorem sentinel_iff:
  "(words_ok blocks \<longrightarrow> (\<exists>s. get_stato_from_vertical_boxes blocks bmap gender = Inr s)) \<and>
   (\<forall>s. get_stato_from_vertical_boxes blocks bmap gender = Inr s \<longrightarrow>
      (s = not_recognised \<longleftrightarrow> \<not> all_fragments_found blocks \<or> \<not> mark_present blocks))"
proof (intro conjI impI allI)
  assume "words_ok blocks"
  then show "\<exists>s. get_stato_from_vertical_boxes blocks bmap gender = Inr s" by (rule stato_total)
next
  fix s
  assume "get_stato_from_vertical_boxes blocks bmap gender = Inr s"
  from stato_result [OF this] italian_form_recognised [of _ gender]
  show "s = not_recognised \<longleftrightarrow> \<not> all_fragments_found blocks \<or> \<not> mark_present blocks"
    by auto
qed

theorem sentinel_iff_witness:
  "words_ok status_words \<and>
   get_stato_from_vertical_boxes status_words Map.empty ''Maschio'' = Inr not_recognised \<and>
   all_fragments_found status_words \<and> \<not> mark_present status_words"
proof -
  have w: "words_ok status_words" by code_simp
  have r: "get_stato_from_vertical_boxes status_words Map.empty ''Maschio'' = Inr not_recognised"
    by code_simp
  have a: "all_fragments_found status_words" by code_simp
  from sentinel_iff [of status_words Map.empty "''Maschio''"] r a
  have "\<not> mark_present status_words" by simp
  with w r a show ?thesis by simp
qed

text \<open>
  C10: whatever the block list and the gender string, a returned status is one of thirteen
  strings: the sentinel, the four masculine forms, the four feminine forms, or a masculine
  form joined by \<open>" / "\<close> to the feminine form of the same index. The thirteen are distinct.
\<close>

theorem stato_range:
  "(words_ok blocks \<longrightarrow> (\<exists>s. get_stato_from_vertical_boxes blocks bmap gender = Inr s)) \<and>
   (\<forall>s. get_stato_from_vertical_boxes blocks bmap gender = Inr s \<longrightarrow> s \<in> set stato_values) \<and>
   distinct stato_values \<and> length stato_values = 13"
proof (intro conjI impI allI)
  assume "words_ok blocks"
  then show "\<exists>s. get_stato_from_vertical_boxes blocks bmap gender = Inr s" by (rule stato_total)
next
  fix s
  assume "get_stato_from_vertical_boxes blocks bmap gender = Inr s"
  from stato_result [OF this] italian_form_values [of _ gender]
  show "s \<in> set stato_values" by (auto simp: stato_values_def)
next
  show "distinct stato_values"
    by (simp add: stato_values_def male_def female_def not_recognised_def upt_rec)
  show "length stato_values = 13"
    by (simp add: stato_values_def male_def female_def)
qed

theorem stato_range_witness:
  "words_ok doc_divorced \<and>
   get_stato_from_vertical_boxes doc_divorced Map.empty '''' = Inr ''Divorziato / Divorziata'' \<and>
   ''Divorziato / Divorziata'' \<in> set stato_values"
proof -
  have w: "words_ok doc_divorced" by code_simp
  have r: "get_stato_from_vertical_boxes doc_divorced Map.empty '''' = Inr ''Divorziato / Divorziata''"
    by code_simp
  from stato_range [of doc_divorced Map.empty "''''"] r
  have "''Divorziato / Divorziata'' \<in> set stato_values" by blast
  with w r show ?thesis by simp
qed



section \<open>The extraction functions never raise on well-formed input\<close>

subsection \<open>Substrings\<close>

lemma startswith_iff: "startswith p s \<longleftrightarrow> (\<exists>post. s = p @ post)"
proof
  assume "startswith p s"
  then have "s = p @ drop (length p) s"
    by (metis append_take_drop_id startswith_def)
  then show "\<exists>post. s = p @ post" ..
next
  assume "\<exists>post. s = p @ post"
  then show "startswith p s" by (auto simp: startswith_def)
qed

lemma contains_iff: "contains sub s \<longleftrightarrow> (\<exists>pre post. s = pre @ sub @ post)"
proof (induction s)
  case Nil
  show ?case by auto
next
  case (Cons c cs)
  show ?case
  proof
    assume "contains sub (c # cs)"
    then consider "startswith sub (c # cs)" | "contains sub cs" by auto
    then show "\<exists>pre post. c # cs = pre @ sub @ post"
    proof cases
      case 1
      then obtain post where "c # cs = [] @ sub @ post" by (auto simp: startswith_iff)
      then show ?thesis by blast
    next
      case 2
      with Cons.IH obtain pre post where "cs = pre @ sub @ post" by blast
      then have "c # cs = (c # pre) @ sub @ post" by simp
      then show ?thesis by blast
    qed
  next
    assume "\<exists>pre post. c # cs = pre @ sub @ post"
    then obtain pre post where e: "c # cs = pre @ sub @ post" by blast
    show "contains sub (c # cs)"
    proof (cases pre)
      case Nil
      with e have "startswith sub (c # cs)" by (auto simp: startswith_iff)
      then show ?thesis by simp
    next
      case (Cons a pre')
      with e have "cs = pre' @ sub @ post" by simp
      with Cons.IH have "contains sub cs" by blast
      then show ?thesis by simp
    qed
  qed
qed

lemma contains_suffix: "contains (a @ sep) s \<Longrightarrow> contains sep s"
proof -
  assume "contains (a @ sep) s"
  then obtain pre post where "s = pre @ (a @ sep) @ post" by (auto simp: contains_iff)
  then have "s = (pre @ a) @ sep @ post" by simp
  then show ?thesis unfolding contains_iff by blast
qed

lemma split_after_Some: "contains sep s \<Longrightarrow> \<exists>r. split_after sep s = Some r"
  by (induction s) auto

subsection \<open>The header never raises\<close>

lemma header_keyword_split:
  assumes "contains (''Nj'' @ [CHR 0xEB] @ ''sia Administrative'') l \<or>
           contains ''Njesia Administrative'' l"
  shows "\<exists>r. split_after ''Administrative'' l = Some r"
proof -
  have a: "''Nj'' @ [CHR 0xEB] @ ''sia Administrative'' = (''Nj'' @ [CHR 0xEB] @ ''sia '') @ ''Administrative''"
    by simp
  have b: "''Njesia Administrative'' = ''Njesia '' @ ''Administrative''" by simp
  from assms have "contains ''Administrative'' l"
    using contains_suffix [of "''Nj'' @ [CHR 0xEB] @ ''sia ''" "''Administrative''" l]
      contains_suffix [of "''Njesia ''" "''Administrative''" l]
    unfolding a [symmetric] b [symmetric] by blast
  then show ?thesis by (rule split_after_Some)
qed

lemma header_scan_total: "\<exists>comune' sezione'. header_scan lines comune sezione = Inr (comune', sezione')"
proof (induction lines arbitrary: comune sezione)
  case Nil
  show ?case by simp
next
  case (Cons l rest)
  show ?case
  proof (cases "contains (''Nj'' @ [CHR 0xEB] @ ''sia Administrative'') l \<or>
           contains ''Njesia Administrative'' l")
    case True
    from header_keyword_split [OF True] obtain r where r: "split_after ''Administrative'' l = Some r"
      by blast
    show ?thesis
      using True r Cons.IH by (simp add: Let_def del: split_after.simps contains.simps)
  next
    case False
    then show ?thesis using Cons.IH by (simp add: Let_def del: split_after.simps contains.simps)
  qed
qed

lemma line_texts_total:
  "\<forall>b \<in> set blocks. BlockType b = ''LINE'' \<longrightarrow> Text b \<noteq> None \<Longrightarrow> \<exists>ts. line_texts blocks = Inr ts"
  by (induction blocks) (auto simp: required_def)

lemma extract_comune_sezione_total:
  assumes "\<forall>b \<in> set blocks. BlockType b = ''LINE'' \<longrightarrow> Text b \<noteq> None"
  shows "\<exists>comune sezione. extract_comune_sezione blocks = Inr (comune, sezione)"
proof -
  from line_texts_total [OF assms] obtain ts where ts: "line_texts blocks = Inr ts" by blast
  from header_scan_total [of ts "[]" "[]"] obtain c s where "header_scan ts [] [] = Inr (c, s)"
    by blast
  with ts show ?thesis by (simp add: extract_comune_sezione_def)
qed

lemma extract_seal_footer_total:
  assumes "\<forall>b \<in> set blocks. BlockType b = ''LINE'' \<longrightarrow> Text b \<noteq> None"
  shows "\<exists>seal. extract_seal_footer blocks = Inr seal"
proof -
  from line_texts_total [OF assms] obtain ts where ts: "line_texts blocks = Inr ts" by blast
  then show ?thesis by (simp add: extract_seal_footer_def)
qed

subsection \<open>The grid never raises on well-formed input\<close>

lemma word_texts_of_ids_total:
  assumes "\<forall>b \<in> ran bmap. BlockType b = ''WORD'' \<longrightarrow> Text b \<noteq> None"
  shows "\<forall>i \<in> set ids. bmap i \<noteq> None \<Longrightarrow> \<exists>ts. word_texts_of_ids bmap ids = Inr ts"
proof (induction ids)
  case Nil
  show ?case by simp
next
  case (Cons wid wids)
  then obtain w where w: "bmap wid = Some w" by auto
  then have "w \<in> ran bmap" by (auto simp: ran_def)
  with assms have t: "BlockType w = ''WORD'' \<longrightarrow> Text w \<noteq> None" by blast
  from Cons obtain ts where "word_texts_of_ids bmap wids = Inr ts" by auto
  with w t show ?case by (auto simp: required_def)
qed

lemma word_texts_total:
  assumes "\<forall>b \<in> ran bmap. BlockType b = ''WORD'' \<longrightarrow> Text b \<noteq> None"
  shows "\<forall>cr \<in> set crs. \<forall>i \<in> set (Ids cr). bmap i \<noteq> None \<Longrightarrow> \<exists>ts. word_texts bmap crs = Inr ts"
proof (induction crs)
  case Nil
  show ?case by simp
next
  case (Cons cr crs)
  then have "\<forall>i \<in> set (Ids cr). bmap i \<noteq> None" by simp
  from word_texts_of_ids_total [OF assms this] obtain ts
    where "word_texts_of_ids bmap (Ids cr) = Inr ts" by blast
  moreover from Cons obtain ts' where "word_texts bmap crs = Inr ts'" by auto
  ultimately show ?case by simp
qed

lemma block_ok_ids:
  "block_ok bmap b \<Longrightarrow> \<forall>rel \<in> set (relationships_of b). \<forall>i \<in> set (Ids rel). bmap i \<noteq> None"
  by (simp add: block_ok_def list_all_iff)

lemma add_cells_total:
  assumes "\<forall>b \<in> ran bmap. block_ok bmap b"
  shows "\<forall>i \<in> set cids. bmap i \<noteq> None \<Longrightarrow> \<exists>rows'. add_cells bmap cids rows = Inr rows'"
proof (induction cids arbitrary: rows)
  case Nil
  show ?case by simp
next
  case (Cons cid cids)
  then obtain cell where cell: "bmap cid = Some cell" by auto
  then have "cell \<in> ran bmap" by (auto simp: ran_def)
  with assms have ok: "block_ok bmap cell" by blast
  from Cons have rest: "\<And>rows. \<exists>rows'. add_cells bmap cids rows = Inr rows'" by simp
  show ?case
  proof (cases "BlockType cell = ''CELL''")
    case True
    with ok obtain r c where rc: "RowIndex cell = Some r" "ColumnIndex cell = Some c"
      by (auto simp: block_ok_def)
    from assms have "\<forall>b \<in> ran bmap. BlockType b = ''WORD'' \<longrightarrow> Text b \<noteq> None"
      by (auto simp: block_ok_def)
    from word_texts_total [OF this block_ok_ids [OF ok]] obtain ts
      where ts: "word_texts bmap (relationships_of cell) = Inr ts" by blast
    from rest [of "rows((r, c) \<mapsto> strip (join '' '' ts))"] cell True rc ts
    show ?thesis by (simp add: required_def)
  next
    case False
    with rest [of rows] cell show ?thesis by (simp add: required_def)
  qed
qed

lemma build_rows_total:
  assumes "\<forall>b \<in> ran bmap. block_ok bmap b"
  shows "\<forall>rel \<in> set rels. \<forall>i \<in> set (Ids rel). bmap i \<noteq> None \<Longrightarrow>
         \<exists>rows'. build_rows bmap rels rows = Inr rows'"
proof (induction rels arbitrary: rows)
  case Nil
  show ?case by simp
next
  case (Cons rel rels)
  then have ids: "\<forall>i \<in> set (Ids rel). bmap i \<noteq> None" by simp
  from Cons have rest: "\<And>rows. \<exists>rows'. build_rows bmap rels rows = Inr rows'" by simp
  from add_cells_total [OF assms ids, of rows] obtain rows1
    where "add_cells bmap (Ids rel) rows = Inr rows1" by blast
  with rest [of rows] rest [of rows1] show ?case by auto
qed

lemma well_formed_words: "well_formed blocks bmap \<Longrightarrow> words_ok blocks"
  by (auto simp: well_formed_def words_ok_iff block_ok_def)

lemma well_formed_lines:
  "well_formed blocks bmap \<Longrightarrow> \<forall>b \<in> set blocks. BlockType b = ''LINE'' \<longrightarrow> Text b \<noteq> None"
  by (auto simp: well_formed_def block_ok_def)

lemma fields_of_rows_total:
  assumes "well_formed blocks bmap"
  shows "\<exists>r. fields_of_rows blocks bmap rows = Inr r"
proof -
  define rows' where "rows' = clean_row_9 rows"
  define sesso where "sesso = sesso_val_of (cell_at rows' 10 2)"
  from stato_total [OF well_formed_words [OF assms], of bmap sesso] obtain st
    where "get_stato_from_vertical_boxes blocks bmap sesso = Inr st" by blast
  moreover from extract_seal_footer_total [OF well_formed_lines [OF assms]] obtain seal
    where "extract_seal_footer blocks = Inr seal" by blast
  ultimately show ?thesis
    by (simp add: fields_of_rows_def Let_def rows'_def sesso_def)
qed

lemma extract_table_fields_total:
  assumes "well_formed blocks bmap"
  shows "\<exists>r. extract_table_fields blocks bmap = Inr r"
proof (cases "find (\<lambda>b. BlockType b = ''TABLE'') blocks")
  case None
  then show ?thesis by (simp add: extract_table_fields_def)
next
  case (Some tbl)
  then have "tbl \<in> set blocks" by (auto simp: find_Some_iff in_set_conv_nth)
  with assms have ok: "block_ok bmap tbl" by (simp add: well_formed_def)
  from assms have all: "\<forall>b \<in> ran bmap. block_ok bmap b" by (simp add: well_formed_def)
  from build_rows_total [OF all block_ok_ids [OF ok], of Map.empty] obtain rows
    where "build_rows bmap (relationships_of tbl) Map.empty = Inr rows" by blast
  with Some fields_of_rows_total [OF assms, of rows] show ?thesis
    by (simp add: extract_table_fields_def)
qed

lemma well_formed_bmap_of:
  assumes "list_all (block_ok (bmap_of blocks)) blocks"
  shows "well_formed blocks (bmap_of blocks)"
proof -
  have "ran (bmap_of blocks) \<subseteq> set blocks"
    by (auto simp: ran_def bmap_of_def dest!: map_of_SomeD)
  with assms show ?thesis by (auto simp: well_formed_def list_all_iff)
qed

text \<open>
  C9: on well-formed input (every relationship id resolves in the block map, every CELL block
  has its row and column index, every WORD and LINE block has a text, every WORD block has a
  bounding box) \<open>extract_table_fields\<close>, \<open>extract_comune_sezione\<close> and
  \<open>get_stato_from_vertical_boxes\<close> return a value: none of them raises, whether or not the
  table, its cells, the seal lines or the line after a bare number marker are there.
\<close>

theorem extraction_total:
  assumes "well_formed blocks bmap"
  shows "(\<exists>r. extract_table_fields blocks bmap = Inr r) \<and>
         (\<exists>comune sezione. extract_comune_sezione blocks = Inr (comune, sezione)) \<and>
         (\<exists>s. get_stato_from_vertical_boxes blocks bmap gender = Inr s)"
  using extract_table_fields_total [OF assms]
    extract_comune_sezione_total [OF well_formed_lines [OF assms]]
    stato_total [OF well_formed_words [OF assms], of bmap gender]
  by blast

theorem extraction_total_witness:
  "well_formed doc_incomplete (bmap_of doc_incomplete) \<and>
   extract_comune_sezione doc_incomplete = Inr (''Tirana'', ''Nr. '') \<and>
   get_stato_from_vertical_boxes doc_incomplete (bmap_of doc_incomplete) ''ALTRO'' = Inr not_recognised \<and>
   field_of (extract_table_fields doc_incomplete (bmap_of doc_incomplete)) ''ElectronicSeal'' = Some [] \<and>
   (\<exists>r. extract_table_fields doc_incomplete (bmap_of doc_incomplete) = Inr r)"
proof -
  have "list_all (block_ok (bmap_of doc_incomplete)) doc_incomplete" by code_simp
  then have w: "well_formed doc_incomplete (bmap_of doc_incomplete)" by (rule well_formed_bmap_of)
  have c: "extract_comune_sezione doc_incomplete = Inr (''Tirana'', ''Nr. '')" by code_simp
  have s: "get_stato_from_vertical_boxes doc_incomplete (bmap_of doc_incomplete) ''ALTRO'' = Inr not_recognised"
    by code_simp
  have e: "field_of (extract_table_fields doc_incomplete (bmap_of doc_incomplete)) ''ElectronicSeal'' = Some []"
    by code_simp
  from extraction_total [OF w, of "''ALTRO''"]
  have "\<exists>r. extract_table_fields doc_incomplete (bmap_of doc_incomplete) = Inr r" by blast
  with w c s e show ?thesis by blast
qed

section \<open>The fields of the record\<close>

lemma table_rows_fields:
  assumes "table_rows blocks bmap = Some rows"
  shows "extract_table_fields blocks bmap = fields_of_rows blocks bmap rows"
  using assms by (auto simp: table_rows_def extract_table_fields_def split: option.splits sum.splits)

lemma table_rows_exists:
  assumes "extract_table_fields blocks bmap = Inr r" and "\<exists>b \<in> set blocks. BlockType b = ''TABLE''"
  shows "\<exists>rows. table_rows blocks bmap = Some rows"
proof -
  from assms(2) obtain tbl where "find (\<lambda>b. BlockType b = ''TABLE'') blocks = Some tbl"
    by (cases "find (\<lambda>b. BlockType b = ''TABLE'') blocks") (auto simp: find_None_iff)
  with assms(1) show ?thesis
    by (auto simp: table_rows_def extract_table_fields_def split: sum.splits)
qed


lemma normalize_citizenship_other:
  "k \<noteq> ''Cittadinanza'' \<Longrightarrow> normalize_citizenship m k = m k"
  by (simp add: normalize_citizenship_def Let_def)


lemma fields_of_rows_residenza:
  assumes "fields_of_rows blocks bmap rows = Inr r"
  shows "r ''Residenza'' = Some (map_exonyms (cell_at (clean_row_9 rows) 9 2))"
proof -
  from assms obtain sv st se where
    r: "r = normalize_citizenship (normalize_places (result_literal (clean_row_9 rows) sv st se))"
    unfolding fields_of_rows_def Let_def by (auto split: sum.splits)
  show ?thesis
    unfolding r
    by (simp add: normalize_citizenship_other normalize_places_def result_literal_def get_or_empty_def)
qed

text \<open>
  C1, as stated, fails: for a block list with no TABLE block the record is empty, so the key
  \<open>Nome\<close> is absent.
\<close>

theorem record_keys_counterexample:
  "extract_table_fields [] Map.empty = Inr Map.empty \<and>
   field_of (extract_table_fields [] Map.empty) ''Nome'' = None"
  by (simp add: extract_table_fields_def field_of_def)

text \<open>
  C1, amended: for a block list that holds a TABLE block, every record that
  \<open>extract_table_fields\<close> returns has exactly the fourteen named keys, each mapped to a
  string, and on well-formed input a record is returned.
\<close>

theorem record_keys:
  assumes "\<exists>b \<in> set blocks. BlockType b = ''TABLE''"
  shows "(well_formed blocks bmap \<longrightarrow> (\<exists>r. extract_table_fields blocks bmap = Inr r)) \<and>
         (\<forall>r. extract_table_fields blocks bmap = Inr r \<longrightarrow> dom r = set output_keys)"
proof (intro conjI impI allI)
  assume "well_formed blocks bmap"
  then show "\<exists>r. extract_table_fields blocks bmap = Inr r" by (rule extract_table_fields_total)
next
  fix r
  assume r: "extract_table_fields blocks bmap = Inr r"
  from table_rows_exists [OF r assms] obtain rows where "table_rows blocks bmap = Some rows"
    by blast
  from table_rows_fields [OF this] r have "fields_of_rows blocks bmap rows = Inr r" by simp
  then show "dom r = set output_keys" by (rule fields_of_rows_dom)
qed

theorem record_keys_witness:
  "list_ex (\<lambda>b. BlockType b = ''TABLE'') doc_incomplete \<and>
   well_formed doc_incomplete (bmap_of doc_incomplete) \<and>
   map (field_of (extract_table_fields doc_incomplete (bmap_of doc_incomplete))) output_keys =
     [Some [], Some [], Some [], Some [], Some [], Some [], Some [],
      Some ''Rr.Durresit App.4'', Some ''ALTRO'', Some not_recognised,
      Some [], Some [], Some [], Some []] \<and>
   (\<exists>r. extract_table_fields doc_incomplete (bmap_of doc_incomplete) = Inr r \<and>
        dom r = set output_keys)"
proof -
  have t: "\<exists>b \<in> set doc_incomplete. BlockType b = ''TABLE''"
    by (simp add: doc_incomplete_def doc_table_def table_block_def)
  have "list_all (block_ok (bmap_of doc_incomplete)) doc_incomplete" by code_simp
  then have w: "well_formed doc_incomplete (bmap_of doc_incomplete)" by (rule well_formed_bmap_of)
  have v: "map (field_of (extract_table_fields doc_incomplete (bmap_of doc_incomplete))) output_keys =
     [Some [], Some [], Some [], Some [], Some [], Some [], Some [],
      Some ''Rr.Durresit App.4'', Some ''ALTRO'', Some not_recognised,
      Some [], Some [], Some [], Some []]" by code_simp
  from record_keys [OF t, of "bmap_of doc_incomplete"] w
  have "\<exists>r. extract_table_fields doc_incomplete (bmap_of doc_incomplete) = Inr r \<and>
        dom r = set output_keys" by blast
  with t w v show ?thesis by (simp add: list_ex_iff)
qed




section \<open>Properties of the electronic seal\<close>

subsection \<open>The second marker line\<close>






subsection \<open>The scan for the date and the hash\<close>









end
